theory Spec2Isabelle
  imports Complex_Main
begin

section \<open>Data model of \<open>camera/facial_recognition.py\<close>\<close>

text \<open>
  The module is one class, \<open>FacialRecognition\<close>, built on OpenCV, dlib, MTCNN, Keras and
  Django. The class is modelled as a record of its attributes, the libraries and the
  operating system as a record of the functions the class calls (their results are not
  computed here, they are parameters of every definition), and everything the methods
  change outside the object (printed lines, written files, database rows) as a record
  \<open>world\<close> that is passed along.

  Python floats (confidences, embeddings, distances, thresholds) are modelled as reals;
  \<open>float('inf')\<close> is the extra value \<open>PInf\<close>. A NaN has no counterpart in this model.
\<close>

text \<open>The exceptions that can leave a method.\<close>

datatype error = CvError | IndexError | TypeError | OSError

text \<open>
  A numpy image: \<open>shape[0]\<close>, \<open>shape[1]\<close>, the number of channels, and the flat pixel
  buffer in row-major order.
\<close>

record image =
  rows :: nat
  cols :: nat
  chans :: nat
  pixels :: "nat list"

text \<open>\<open>img.size\<close>: the number of array elements.\<close>

definition img_size :: "image \<Rightarrow> nat" where
  "img_size img = rows img * cols img * chans img"

text \<open>
  One entry of the list MTCNN returns: a dict with the keys \<open>box\<close> (x, y, width, height)
  and \<open>confidence\<close>; \<open>recognize_faces\<close> adds the key \<open>label\<close>.
\<close>

type_synonym box = "int \<times> int \<times> int \<times> int"

record face =
  box :: box
  confidence :: real
  label :: "string option"

text \<open>The lines the module prints, one constructor per \<open>print\<close> statement.\<close>

datatype line =
    EmptyImage
  | ResizeFailed string
  | PredictorNotLoaded
  | ExtractionFailed string
  | DistanceTo string real
  | ImageSaved string
  | RecordSaved string string

datatype color_code = COLOR_BGR2GRAY | COLOR_GRAY2BGR

text \<open>
  The libraries, the file system and the Django settings. \<open>cv_resize\<close> returns the
  message of the \<open>cv2.error\<close> it raises as \<open>Inl\<close>; \<open>cv_imwrite\<close> raises or
  returns whether the file was written; \<open>strftime_now n\<close> is the formatted time at the
  \<open>n\<close>-th reading of the clock.
\<close>

record env =
  cv_resize :: "image \<Rightarrow> nat \<times> nat \<Rightarrow> string + image"
  cv_cvtColor :: "image \<Rightarrow> color_code \<Rightarrow> error + image"
  cv_warpAffine :: "image \<Rightarrow> (int \<times> int) list \<Rightarrow> (int \<times> int) list \<Rightarrow> nat \<times> nat \<Rightarrow> image"
  cv_imread :: "string \<Rightarrow> image option"
  cv_imwrite :: "string \<Rightarrow> image \<Rightarrow> error + bool"
  preprocess_input :: "image \<Rightarrow> image"
  os_listdir :: "string \<Rightarrow> error + string list"
  KNOWN_FACES_DIR :: string
  MEDIA_ROOT :: string
  strftime_now :: "nat \<Rightarrow> string"

text \<open>The attributes of a \<open>FacialRecognition\<close> object.\<close>

record facial_recognition =
  detector :: "image \<Rightarrow> face list"
  model :: "image \<Rightarrow> real list"
  known_faces_features :: "real list list"
  known_faces_labels :: "string list"
  shape_predictor :: "(image \<Rightarrow> box \<Rightarrow> (int \<times> int) list) option"

text \<open>
  What the methods change outside the object: the printed lines, the directories and files
  on disk, the rows of the \<open>Face\<close> table, the number of clock readings, and the trace of
  the calls of \<open>save_face_image\<close> with their arguments.
\<close>

record world =
  stdout :: "line list"
  dirs :: "string list"
  files :: "(string \<times> image) list"
  face_objects :: "(string \<times> string) list"
  clock_reads :: nat
  save_calls :: "(image \<times> string) list"

definition print :: "line \<Rightarrow> world \<Rightarrow> world" where
  "print l w = w\<lparr>stdout := stdout w @ [l]\<rparr>"

section \<open>Python and numpy primitives\<close>

text \<open>The bounds of the slice \<open>[start:stop]\<close> of a sequence of length \<open>n\<close>.\<close>

definition slice_bounds :: "nat \<Rightarrow> int \<Rightarrow> int \<Rightarrow> nat \<times> nat" where
  "slice_bounds n start stop =
     (let norm = (\<lambda>i. if i < 0 then max 0 (i + int n) else min i (int n));
          a = norm start; b = norm stop
      in (nat a, nat (max a b)))"

text \<open>\<open>img[y0:y1, x0:x1]\<close>.\<close>

definition crop :: "image \<Rightarrow> int \<Rightarrow> int \<Rightarrow> int \<Rightarrow> int \<Rightarrow> image" where
  "crop img y0 y1 x0 x1 =
     (case slice_bounds (rows img) y0 y1 of (r0, r1) \<Rightarrow>
      case slice_bounds (cols img) x0 x1 of (c0, c1) \<Rightarrow>
        \<lparr>rows = r1 - r0, cols = c1 - c0, chans = chans img,
         pixels = concat (map (\<lambda>r. take ((c1 - c0) * chans img)
                                     (drop ((r * cols img + c0) * chans img) (pixels img)))
                              [r0..<r1])\<rparr>)"

text \<open>\<open>s.endswith(suf)\<close>.\<close>

definition endswith :: "string \<Rightarrow> string \<Rightarrow> bool" where
  "endswith s suf = (length suf \<le> length s \<and> drop (length s - length suf) s = suf)"

text \<open>\<open>s.rfind(c)\<close>: the last index of \<open>c\<close>, or -1.\<close>

fun rfind :: "string \<Rightarrow> char \<Rightarrow> int" where
  "rfind [] c = -1"
| "rfind (x # xs) c =
     (let r = rfind xs c in if r \<ge> 0 then r + 1 else if x = c then 0 else -1)"

text \<open>
  \<open>os.path.splitext\<close> (posixpath): the extension starts at the last dot after the last
  slash, unless only dots stand between that slash and that dot.
\<close>

definition splitext :: "string \<Rightarrow> string \<times> string" where
  "splitext p =
     (let sepIndex = rfind p (CHR ''/''); dotIndex = rfind p (CHR ''.'')
      in if dotIndex > sepIndex \<and>
            list_ex (\<lambda>c. c \<noteq> CHR ''.'')
              (take (nat (dotIndex - (sepIndex + 1))) (drop (nat (sepIndex + 1)) p))
         then (take (nat dotIndex) p, drop (nat dotIndex) p)
         else (p, []))"

text \<open>\<open>os.path.join(a, b)\<close> (posixpath, two components).\<close>

definition path_join :: "string \<Rightarrow> string \<Rightarrow> string" where
  "path_join a b =
     (if b \<noteq> [] \<and> hd b = CHR ''/'' then b
      else if a = [] \<or> last a = CHR ''/'' then a @ b
      else a @ ''/'' @ b)"

text \<open>\<open>scipy.spatial.distance.euclidean\<close> on two vectors of the same length.\<close>

definition euclidean :: "real list \<Rightarrow> real list \<Rightarrow> real" where
  "euclidean u v = sqrt (sum_list (map (\<lambda>(a, b). (a - b)\<^sup>2) (zip u v)))"

text \<open>A float that may be \<open>float('inf')\<close>, and the two comparisons the matcher makes.\<close>

datatype xfloat = Fin real | PInf

fun less_x :: "real \<Rightarrow> xfloat \<Rightarrow> bool" where
  "less_x d PInf = True"
| "less_x d (Fin m) = (d < m)"

fun greater_x :: "xfloat \<Rightarrow> real \<Rightarrow> bool" where
  "greater_x PInf t = True"
| "greater_x (Fin m) t = (m > t)"

section \<open>The methods\<close>

text \<open>\<open>_preprocess_image\<close>. The resize is not guarded here: its error propagates.\<close>

definition preprocess_image :: "env \<Rightarrow> image option \<Rightarrow> error + image option" where
  "preprocess_image E img =
     (case img of
        None \<Rightarrow> Inr None
      | Some im \<Rightarrow>
          if img_size im = 0 then Inr None
          else (case cv_resize E im (224, 224) of
                  Inl e \<Rightarrow> Inl CvError
                | Inr resized \<Rightarrow> Inr (Some (preprocess_input E resized))))"

text \<open>\<open>_extract_features\<close>.\<close>

definition extract_features :: "facial_recognition \<Rightarrow> image option \<Rightarrow> real list option" where
  "extract_features self img_array =
     (case img_array of None \<Rightarrow> None | Some a \<Rightarrow> Some (model self a))"

text \<open>The list comprehension \<open>[int(coordinate * 2) for coordinate in face['box']]\<close>.\<close>

definition rescale_box :: "box \<Rightarrow> box" where
  "rescale_box b = (case b of (x, y, w, h) \<Rightarrow> (x * 2, y * 2, w * 2, h * 2))"

definition default_confidence_threshold :: real where
  "default_confidence_threshold = 0.70"

text \<open>\<open>_detect_faces\<close>.\<close>

definition detect_faces ::
  "env \<Rightarrow> facial_recognition \<Rightarrow> image option \<Rightarrow> real \<Rightarrow> world \<Rightarrow> face list \<times> world" where
  "detect_faces E self img confidence_threshold w =
     (case img of
        None \<Rightarrow> ([], print EmptyImage w)
      | Some im \<Rightarrow>
          if img_size im = 0 then ([], print EmptyImage w)
          else (case cv_resize E im (160, 120) of
                  Inl e \<Rightarrow> ([], print (ResizeFailed e) w)
                | Inr small_img \<Rightarrow>
                    (let faces = detector self small_img;
                         faces = map (\<lambda>face. face\<lparr>box := rescale_box (box face)\<rparr>) faces;
                         filtered_faces =
                           filter (\<lambda>face. confidence face \<ge> confidence_threshold) faces
                     in (filtered_faces, w))))"

text \<open>\<open>_warp_affine\<close>: indexing the landmark list raises when it is too short.\<close>

definition warp_affine :: "env \<Rightarrow> image \<Rightarrow> (int \<times> int) list \<Rightarrow> error + image" where
  "warp_affine E img points =
     (if length points \<le> 45 then Inl IndexError
      else Inr (cv_warpAffine E img [points ! 36, points ! 45, points ! 30]
                  [(30, 30), (70, 30), (50, 70)] (100, 100)))"

text \<open>\<open>_align_face\<close>.\<close>

definition align_face ::
  "env \<Rightarrow> facial_recognition \<Rightarrow> image \<Rightarrow> box \<Rightarrow> world \<Rightarrow> error + (image \<times> world)" where
  "align_face E self img b w =
     (case b of (x, y, wd, h) \<Rightarrow>
        (case shape_predictor self of
           Some predictor \<Rightarrow>
             (case warp_affine E img (predictor img (x, y, x + wd, y + h)) of
                Inl e \<Rightarrow> Inl e
              | Inr aligned_face \<Rightarrow> Inr (aligned_face, w))
         | None \<Rightarrow> Inr (img, print PredictorNotLoaded w)))"

text \<open>\<open>_preprocess_and_extract\<close>: only \<open>faces[0]\<close> is looked at.\<close>

definition preprocess_and_extract ::
  "env \<Rightarrow> facial_recognition \<Rightarrow> image option \<Rightarrow> world \<Rightarrow> error + (real list option \<times> world)" where
  "preprocess_and_extract E self img w =
     (case detect_faces E self img default_confidence_threshold w of
        ([], w1) \<Rightarrow> Inr (None, w1)
      | (f # fs, w1) \<Rightarrow>
          (case img of
             None \<Rightarrow> Inl TypeError
           | Some im \<Rightarrow>
               (case align_face E self im (box f) w1 of
                  Inl e \<Rightarrow> Inl e
                | Inr (aligned_face, w2) \<Rightarrow>
                    (case preprocess_image E (Some aligned_face) of
                       Inl e \<Rightarrow> Inl e
                     | Inr None \<Rightarrow> Inr (None, w2)
                     | Inr (Some face_array) \<Rightarrow>
                         Inr (extract_features self (Some face_array), w2)))))"

text \<open>The body of the loop of \<open>load_known_faces\<close>, for one directory entry.\<close>

definition load_file ::
  "env \<Rightarrow> string \<Rightarrow> facial_recognition \<times> world \<Rightarrow> error + (facial_recognition \<times> world)" where
  "load_file E filename sw =
     (case sw of (self, w) \<Rightarrow>
        if endswith filename ''.jpg'' \<or> endswith filename ''.jpeg'' \<or> endswith filename ''.png''
        then
          (let img_path = path_join (KNOWN_FACES_DIR E) filename;
               lbl = fst (splitext filename);
               img = cv_imread E img_path
           in case preprocess_and_extract E self img w of
                Inl e \<Rightarrow> Inl e
              | Inr (Some face_features, w1) \<Rightarrow>
                  Inr (self\<lparr>known_faces_features := known_faces_features self @ [face_features],
                            known_faces_labels := known_faces_labels self @ [lbl]\<rparr>, w1)
              | Inr (None, w1) \<Rightarrow> Inr (self, print (ExtractionFailed lbl) w1))
        else Inr (self, w))"

fun load_loop ::
  "env \<Rightarrow> string list \<Rightarrow> facial_recognition \<times> world \<Rightarrow> error + (facial_recognition \<times> world)" where
  "load_loop E [] sw = Inr sw"
| "load_loop E (filename # rest) sw =
     (case load_file E filename sw of Inl e \<Rightarrow> Inl e | Inr sw' \<Rightarrow> load_loop E rest sw')"


text \<open>
  Three names for stating what the loading does: the test on the file name that
  \<open>load_known_faces\<close> makes, the call
  \<open>self._preprocess_and_extract(cv2.imread(os.path.join(known_faces_dir, filename)))\<close>,
  and the lines printed between an earlier and a later world.
\<close>

definition has_image_suffix :: "string \<Rightarrow> bool" where
  "has_image_suffix filename =
     (endswith filename ''.jpg'' \<or> endswith filename ''.jpeg'' \<or> endswith filename ''.png'')"

definition extract_file ::
  "env \<Rightarrow> facial_recognition \<Rightarrow> world \<Rightarrow> string \<Rightarrow> error + (real list option \<times> world)" where
  "extract_file E self w filename =
     preprocess_and_extract E self (cv_imread E (path_join (KNOWN_FACES_DIR E) filename)) w"

definition printed_since :: "world \<Rightarrow> world \<Rightarrow> line list" where
  "printed_since w w' = drop (length (stdout w)) (stdout w')"

text \<open>\<open>save_face_image\<close>, the sighting recorder.\<close>

definition save_face_image :: "env \<Rightarrow> image \<Rightarrow> string \<Rightarrow> world \<Rightarrow> error + world" where
  "save_face_image E face_img lbl w0 =
     (let w = w0\<lparr>save_calls := save_calls w0 @ [(face_img, lbl)]\<rparr>;
          faces_seen_dir = path_join (MEDIA_ROOT E) ''faces_seen'';
          w = (if faces_seen_dir \<in> set (dirs w) then w
               else w\<lparr>dirs := dirs w @ [faces_seen_dir]\<rparr>);
          timestamp = strftime_now E (clock_reads w);
          w = w\<lparr>clock_reads := clock_reads w + 1\<rparr>;
          filename = lbl @ ''_'' @ timestamp @ ''.jpg'';
          filepath = path_join faces_seen_dir filename
      in case cv_imwrite E filepath face_img of
           Inl e \<Rightarrow> Inl e
         | Inr written \<Rightarrow>
           (let w = (if written
                     then w\<lparr>files := (filepath, face_img) #
                                       filter (\<lambda>(p, i). p \<noteq> filepath) (files w)\<rparr>
                     else w);
                w = print (ImageSaved filepath) w;
                w = w\<lparr>face_objects := face_objects w @ [(lbl, ''faces_seen/'' @ filename)]\<rparr>
            in Inr (print (RecordSaved lbl filename) w)))"

text \<open>
  The scan over \<open>zip(self.known_faces_features, self.known_faces_labels)\<close>, with the
  running \<open>(min_distance, label)\<close>.
\<close>

fun scan_gallery ::
  "real list \<Rightarrow> (real list \<times> string) list \<Rightarrow> xfloat \<times> string \<Rightarrow> world
     \<Rightarrow> (xfloat \<times> string) \<times> world" where
  "scan_gallery features [] ml w = (ml, w)"
| "scan_gallery features ((known_features, known_label) # rest) (min_distance, lbl) w =
     (let dist = euclidean features known_features;
          w = print (DistanceTo known_label dist) w
      in if less_x dist min_distance
         then scan_gallery features rest (Fin dist, known_label) w
         else scan_gallery features rest (min_distance, lbl) w)"

text \<open>The test that makes the loop skip a box.\<close>

definition out_of_bounds :: "image \<Rightarrow> box \<Rightarrow> bool" where
  "out_of_bounds frame b =
     (case b of (x, y, wd, h) \<Rightarrow>
        x < 0 \<or> y < 0 \<or> x + wd > int (cols frame) \<or> y + h > int (rows frame))"

text \<open>
  The body of the loop of \<open>recognize_faces\<close> for one detected face: \<open>None\<close> where the
  source says \<open>continue\<close>, the labelled face where it appends to \<open>recognized_faces\<close>.
\<close>

definition recognize_face ::
  "env \<Rightarrow> facial_recognition \<Rightarrow> image \<Rightarrow> real \<Rightarrow> face \<Rightarrow> world
     \<Rightarrow> error + (face option \<times> world)" where
  "recognize_face E self frame recognition_threshold fc w =
     (case box fc of (x, y, wd, h) \<Rightarrow>
        if x < 0 \<or> y < 0 \<or> x + wd > int (cols frame) \<or> y + h > int (rows frame)
        then Inr (None, w)
        else
          (case align_face E self frame (x, y, wd, h) w of
             Inl e \<Rightarrow> Inl e
           | Inr (aligned_face, w1) \<Rightarrow>
               (case preprocess_image E (Some aligned_face) of
                  Inl e \<Rightarrow> Inl e
                | Inr None \<Rightarrow> Inr (None, w1)
                | Inr (Some face_array) \<Rightarrow>
                    (case extract_features self (Some face_array) of
                       None \<Rightarrow> Inl TypeError
                     | Some features \<Rightarrow>
                         (case scan_gallery features
                                 (zip (known_faces_features self) (known_faces_labels self))
                                 (PInf, ''Unknown'') w1 of
                            ((min_distance, lbl), w2) \<Rightarrow>
                              (let lbl = (if greater_x min_distance recognition_threshold
                                          then ''Unknown'' else lbl);
                                   fc = fc\<lparr>label := Some lbl\<rparr>
                               in case save_face_image E (crop frame y (y + h) x (x + wd)) lbl w2 of
                                    Inl e \<Rightarrow> Inl e
                                  | Inr w3 \<Rightarrow> Inr (Some fc, w3)))))))"

fun recognize_loop ::
  "env \<Rightarrow> facial_recognition \<Rightarrow> image \<Rightarrow> real \<Rightarrow> face list \<Rightarrow> face list \<Rightarrow> world
     \<Rightarrow> error + (face list \<times> world)" where
  "recognize_loop E self frame t [] recognized_faces w = Inr (recognized_faces, w)"
| "recognize_loop E self frame t (fc # rest) recognized_faces w =
     (case recognize_face E self frame t fc w of
        Inl e \<Rightarrow> Inl e
      | Inr (None, w') \<Rightarrow> recognize_loop E self frame t rest recognized_faces w'
      | Inr (Some fc', w') \<Rightarrow> recognize_loop E self frame t rest (recognized_faces @ [fc']) w')"

text \<open>The slice \<open>frame[y:y + height, x:x + width]\<close> that is handed to the recorder.\<close>

definition face_region :: "image \<Rightarrow> box \<Rightarrow> image" where
  "face_region frame b = (case b of (x, y, wd, h) \<Rightarrow> crop frame y (y + h) x (x + wd))"


text \<open>\<open>recognize_faces\<close>. \<open>cv2.cvtColor\<close> raises on a frame that is \<open>None\<close>.\<close>

definition recognize_faces ::
  "env \<Rightarrow> facial_recognition \<Rightarrow> image option \<Rightarrow> real \<Rightarrow> world \<Rightarrow> error + (face list \<times> world)" where
  "recognize_faces E self frame recognition_threshold w =
     (case frame of
        None \<Rightarrow> Inl CvError
      | Some fr \<Rightarrow>
          (case cv_cvtColor E fr COLOR_BGR2GRAY of
             Inl e \<Rightarrow> Inl e
           | Inr gray_image \<Rightarrow>
               (case cv_cvtColor E gray_image COLOR_GRAY2BGR of
                  Inl e \<Rightarrow> Inl e
                | Inr gray_image_3ch \<Rightarrow>
                    (case detect_faces E self (Some gray_image_3ch)
                            default_confidence_threshold w of
                       (faces, w1) \<Rightarrow>
                         recognize_loop E self fr recognition_threshold faces [] w1))))"

section \<open>A concrete installation for the examples\<close>

text \<open>An image of the given shape with every element 0.\<close>

definition blank :: "nat \<Rightarrow> nat \<Rightarrow> nat \<Rightarrow> image" where
  "blank h wd c = \<lparr>rows = h, cols = wd, chans = c, pixels = replicate (h * wd * c) 0\<rparr>"

text \<open>
  Libraries that resize three-channel images only, keep the shape when converting colours
  and write every image, and a gallery directory with one readable portrait, one
  unreadable file and one file that is not an image.
\<close>

definition lab_env :: env where
  "lab_env =
     \<lparr>cv_resize = (\<lambda>im (wd, h). if chans im = 3 then Inr (blank h wd 3)
                                 else Inl ''unsupported''),
      cv_cvtColor = (\<lambda>im c. if img_size im = 0 then Inl CvError else Inr (blank (rows im) (cols im) 3)),
      cv_warpAffine = (\<lambda>im src dst (wd, h). blank h wd (chans im)),
      cv_imread = (\<lambda>p. if p = ''known/alice.jpg'' then Some (blank 240 320 3) else None),
      cv_imwrite = (\<lambda>p im. Inr True),
      preprocess_input = (\<lambda>im. im),
      os_listdir = (\<lambda>d. if d = ''known'' then Inr [''alice.jpg'', ''junk.png'', ''notes.txt'']
                          else Inl OSError),
      KNOWN_FACES_DIR = ''known'',
      MEDIA_ROOT = ''media'',
      strftime_now = (\<lambda>n. ''20240101_120000'')\<rparr>"

text \<open>
  A detector that reports three candidates on every image, an embedder that answers with
  a one-element vector, no landmark predictor, and an empty gallery.
\<close>

definition lab_faces :: "face list" where
  "lab_faces =
     [\<lparr>box = (10, 10, 20, 20), confidence = 0.9, label = None\<rparr>,
      \<lparr>box = (-5, 10, 20, 20), confidence = 0.8, label = None\<rparr>,
      \<lparr>box = (30, 30, 20, 20), confidence = 0.5, label = None\<rparr>]"

definition lab_self :: facial_recognition where
  "lab_self =
     \<lparr>detector = (\<lambda>im. lab_faces),
      model = (\<lambda>im. [0]),
      known_faces_features = [],
      known_faces_labels = [],
      shape_predictor = None\<rparr>"

text \<open>The same object with three known faces, the last two at the same distance from \<open>[0]\<close>.\<close>

definition lab_known :: facial_recognition where
  "lab_known = lab_self\<lparr>known_faces_features := [[5], [3], [-3]],
                         known_faces_labels := [''alice'', ''bob'', ''carol'']\<rparr>"




definition world0 :: world where
  "world0 = \<lparr>stdout = [], dirs = [], files = [], face_objects = [], clock_reads = 0,
             save_calls = []\<rparr>"

section \<open>The face detector\<close>

text \<open>
  C4. \<open>_detect_faces\<close> fails soft: for an image that is \<open>None\<close>, that has no elements, or
  whose resize to the working resolution raises \<open>cv2.error\<close>, it returns the empty list
  after printing one line. The method has no way to raise in this model: its result type
  has no error component.
\<close>

theorem detect_faces_fails_soft:
  assumes "img = None \<or> (\<exists>im. img = Some im \<and>
             (img_size im = 0 \<or> (\<exists>e. cv_resize E im (160, 120) = Inl e)))"
  shows "\<exists>l. detect_faces E self img t w = ([], print l w)"
  using assms by (auto simp: detect_faces_def split: option.splits sum.splits)

theorem detect_faces_fails_soft_witness:
  "fst (detect_faces lab_env lab_self None 0.7 world0) = []
   \<and> fst (detect_faces lab_env lab_self (Some (blank 0 0 3)) 0.7 world0) = []
   \<and> fst (detect_faces lab_env lab_self (Some (blank 480 640 1)) 0.7 world0) = []"
proof -
  have z: "img_size (blank 0 0 3) = 0"
    by (simp add: img_size_def blank_def)
  have r: "cv_resize lab_env (blank 480 640 1) (160, 120) = Inl ''unsupported''"
    by (simp add: lab_env_def blank_def)
  have "\<exists>l. detect_faces lab_env lab_self None 0.7 world0 = ([], print l world0)"
    by (rule detect_faces_fails_soft) simp
  moreover have "\<exists>l. detect_faces lab_env lab_self (Some (blank 0 0 3)) 0.7 world0
                        = ([], print l world0)"
    by (rule detect_faces_fails_soft) (use z in blast)
  moreover have "\<exists>l. detect_faces lab_env lab_self (Some (blank 480 640 1)) 0.7 world0
                        = ([], print l world0)"
    by (rule detect_faces_fails_soft) (use r in blast)
  ultimately show ?thesis by auto
qed

text \<open>
  C5. On an image that is resized, the result of \<open>_detect_faces\<close> is the detector's
  list, each box doubled, restricted to the candidates whose confidence is at least the
  threshold, in the detector's order; so a candidate is in the result exactly when its
  confidence is greater than or equal to the threshold. The default threshold is 0.70.
\<close>

theorem detect_faces_confidence_filter:
  assumes "img_size im \<noteq> 0" and "cv_resize E im (160, 120) = Inr small"
  shows "fst (detect_faces E self (Some im) t w) =
           filter (\<lambda>f. confidence f \<ge> t)
             (map (\<lambda>f. f\<lparr>box := rescale_box (box f)\<rparr>) (detector self small))
         \<and> (\<forall>c \<in> set (detector self small).
               (c\<lparr>box := rescale_box (box c)\<rparr> \<in> set (fst (detect_faces E self (Some im) t w)))
               = (confidence c \<ge> t))
         \<and> default_confidence_threshold = 0.70"
  using assms by (auto simp: detect_faces_def default_confidence_threshold_def)

theorem detect_faces_confidence_filter_witness:
  "map confidence (fst (detect_faces lab_env lab_self (Some (blank 240 320 3)) 0.8 world0))
     = [0.9, 0.8]"
proof -
  have a: "img_size (blank 240 320 3) \<noteq> 0"
    by (simp add: img_size_def blank_def)
  have b: "cv_resize lab_env (blank 240 320 3) (160, 120) = Inr (blank 120 160 3)"
    by (simp add: lab_env_def blank_def)
  show ?thesis
    using detect_faces_confidence_filter [OF a b, of lab_self "0.8" world0]
    by (simp add: lab_self_def lab_faces_def)
qed

text \<open>
  C1. The detector runs on the image resized to 160 by 120, but the boxes are then
  multiplied by the constant 2, whatever the size of the input. On a 640 by 480 image,
  which is shrunk by the factor 4, a candidate at (10, 10, 20, 20) comes back as
  (20, 20, 40, 40), not as (40, 40, 80, 80).
\<close>

theorem detect_faces_fixed_factor:
  "cv_resize lab_env (blank 480 640 3) (160, 120) = Inr (blank 120 160 3)
   \<and> map box (detector lab_self (blank 120 160 3))
       = [(10, 10, 20, 20), (-5, 10, 20, 20), (30, 30, 20, 20)]
   \<and> map box (fst (detect_faces lab_env lab_self (Some (blank 480 640 3)) 0.7 world0))
       = [(20, 20, 40, 40), (-10, 20, 40, 40)]
   \<and> cols (blank 480 640 3) div cols (blank 120 160 3) = 4
   \<and> rows (blank 480 640 3) div rows (blank 120 160 3) = 4"
  by (simp add: detect_faces_def lab_env_def lab_self_def lab_faces_def blank_def
        img_size_def rescale_box_def)

section \<open>The scan over the gallery\<close>

text \<open>
  The scan only prints; and it ends on the first entry whose distance is least, provided
  some entry is nearer than the distance it started from.
\<close>

lemma scan_gallery_world:
  "snd (scan_gallery q g ml w) =
     w\<lparr>stdout := stdout w @ map (\<lambda>(kf, kl). DistanceTo kl (euclidean q kf)) g\<rparr>"
proof (induction g arbitrary: ml w)
  case Nil
  then show ?case by simp
next
  case (Cons e g)
  obtain kf kl where e: "e = (kf, kl)" by (cases e)
  obtain md lab where ml: "ml = (md, lab)" by (cases ml)
  show ?case
    by (simp add: e ml Let_def Cons.IH print_def)
qed

lemma scan_gallery_first_min:
  assumes "scan_gallery q g (md, lab) w = ((md', lab'), w')"
  shows "if \<exists>e \<in> set g. less_x (euclidean q (fst e)) md
         then \<exists>i < length g.
                md' = Fin (euclidean q (fst (g ! i))) \<and> lab' = snd (g ! i)
                \<and> less_x (euclidean q (fst (g ! i))) md
                \<and> (\<forall>j < length g. euclidean q (fst (g ! i)) \<le> euclidean q (fst (g ! j)))
                \<and> (\<forall>j < i. euclidean q (fst (g ! i)) < euclidean q (fst (g ! j)))
         else md' = md \<and> lab' = lab"
  using assms
proof (induction g arbitrary: md lab w)
  case Nil
  then show ?case by simp
next
  case (Cons e g)
  obtain kf kl where e: "e = (kf, kl)" by (cases e)
  define d where "d = euclidean q kf"
  define D where "D = (\<lambda>x :: real list \<times> string. euclidean q (fst x))"
  show ?case
  proof (cases "less_x d md")
    case True
    with Cons.prems have rec: "scan_gallery q g (Fin d, kl) (print (DistanceTo kl d) w) = ((md', lab'), w')"
      by (simp add: e d_def Let_def)
    note IH = Cons.IH [OF rec]
    show ?thesis
    proof (cases "\<exists>x \<in> set g. less_x (euclidean q (fst x)) (Fin d)")
      case True
      with IH obtain i where i: "i < length g" "md' = Fin (euclidean q (fst (g ! i)))"
        "lab' = snd (g ! i)" "euclidean q (fst (g ! i)) < d"
        "\<forall>j < length g. euclidean q (fst (g ! i)) \<le> euclidean q (fst (g ! j))"
        "\<forall>j < i. euclidean q (fst (g ! i)) < euclidean q (fst (g ! j))"
        by auto
      have lt: "less_x (euclidean q (fst (g ! i))) md"
        using \<open>less_x d md\<close> i(4) by (cases md) auto
      have "Suc i < length (e # g)" using i(1) by simp
      moreover have "md' = Fin (euclidean q (fst ((e # g) ! Suc i)))" using i(2) by simp
      moreover have "lab' = snd ((e # g) ! Suc i)" using i(3) by simp
      moreover have "less_x (euclidean q (fst ((e # g) ! Suc i))) md" using lt by simp
      moreover have "\<forall>j < length (e # g). euclidean q (fst ((e # g) ! Suc i)) \<le> euclidean q (fst ((e # g) ! j))"
      proof (intro allI impI)
        fix j assume "j < length (e # g)"
        then show "euclidean q (fst ((e # g) ! Suc i)) \<le> euclidean q (fst ((e # g) ! j))"
          using i(4,5) by (cases j) (auto simp: e d_def)
      qed
      moreover have "\<forall>j < Suc i. euclidean q (fst ((e # g) ! Suc i)) < euclidean q (fst ((e # g) ! j))"
      proof (intro allI impI)
        fix j assume "j < Suc i"
        then show "euclidean q (fst ((e # g) ! Suc i)) < euclidean q (fst ((e # g) ! j))"
          using i(4,6) by (cases j) (auto simp: e d_def)
      qed
      moreover have "\<exists>x \<in> set (e # g). less_x (euclidean q (fst x)) md"
        using \<open>less_x d md\<close> by (auto simp: e d_def)
      ultimately show ?thesis by (simp only: if_True) blast
    next
      case False
      with IH have r: "md' = Fin d" "lab' = kl" by auto
      have all: "\<forall>x \<in> set g. d \<le> euclidean q (fst x)"
        using False by (auto simp: not_less)
      have "0 < length (e # g)" by simp
      moreover have "md' = Fin (euclidean q (fst ((e # g) ! 0)))" using r by (simp add: e d_def)
      moreover have "lab' = snd ((e # g) ! 0)" using r by (simp add: e)
      moreover have "less_x (euclidean q (fst ((e # g) ! 0))) md"
        using \<open>less_x d md\<close> by (simp add: e d_def)
      moreover have "\<forall>j < length (e # g). euclidean q (fst ((e # g) ! 0)) \<le> euclidean q (fst ((e # g) ! j))"
      proof (intro allI impI)
        fix j assume "j < length (e # g)"
        then show "euclidean q (fst ((e # g) ! 0)) \<le> euclidean q (fst ((e # g) ! j))"
          using all by (cases j) (auto simp: e d_def)
      qed
      moreover have "\<forall>j < (0::nat). euclidean q (fst ((e # g) ! 0)) < euclidean q (fst ((e # g) ! j))"
        by simp
      moreover have "\<exists>x \<in> set (e # g). less_x (euclidean q (fst x)) md"
        using \<open>less_x d md\<close> by (auto simp: e d_def)
      ultimately show ?thesis by (simp only: if_True) blast
    qed
  next
    case False
    with Cons.prems have rec: "scan_gallery q g (md, lab) (print (DistanceTo kl d) w) = ((md', lab'), w')"
      by (simp add: e d_def Let_def)
    note IH = Cons.IH [OF rec]
    from False obtain m where m: "md = Fin m" "m \<le> d"
      by (cases md) auto
    show ?thesis
    proof (cases "\<exists>x \<in> set g. less_x (euclidean q (fst x)) md")
      case True
      with IH obtain i where i: "i < length g" "md' = Fin (euclidean q (fst (g ! i)))"
        "lab' = snd (g ! i)" "less_x (euclidean q (fst (g ! i))) md"
        "\<forall>j < length g. euclidean q (fst (g ! i)) \<le> euclidean q (fst (g ! j))"
        "\<forall>j < i. euclidean q (fst (g ! i)) < euclidean q (fst (g ! j))"
        by auto
      have lt: "euclidean q (fst (g ! i)) < d" using i(4) m by simp
      have "Suc i < length (e # g)" using i(1) by simp
      moreover have "md' = Fin (euclidean q (fst ((e # g) ! Suc i)))" using i(2) by simp
      moreover have "lab' = snd ((e # g) ! Suc i)" using i(3) by simp
      moreover have "less_x (euclidean q (fst ((e # g) ! Suc i))) md" using i(4) by simp
      moreover have "\<forall>j < length (e # g). euclidean q (fst ((e # g) ! Suc i)) \<le> euclidean q (fst ((e # g) ! j))"
      proof (intro allI impI)
        fix j assume "j < length (e # g)"
        then show "euclidean q (fst ((e # g) ! Suc i)) \<le> euclidean q (fst ((e # g) ! j))"
          using lt i(5) by (cases j) (auto simp: e d_def)
      qed
      moreover have "\<forall>j < Suc i. euclidean q (fst ((e # g) ! Suc i)) < euclidean q (fst ((e # g) ! j))"
      proof (intro allI impI)
        fix j assume "j < Suc i"
        then show "euclidean q (fst ((e # g) ! Suc i)) < euclidean q (fst ((e # g) ! j))"
          using lt i(6) by (cases j) (auto simp: e d_def)
      qed
      moreover have "\<exists>x \<in> set (e # g). less_x (euclidean q (fst x)) md"
        using True by auto
      ultimately show ?thesis by (simp only: if_True) blast
    next
      case F2: False
      with IH have r: "md' = md" "lab' = lab" by auto
      have "\<not> (\<exists>x \<in> set (e # g). less_x (euclidean q (fst x)) md)"
        using F2 False by (auto simp: e d_def)
      then show ?thesis using r by simp
    qed
  qed
qed

lemma scan_gallery_from_inf:
  assumes "scan_gallery q g (PInf, ''Unknown'') w = ((md, lab), w2)"
  shows "(g = [] \<and> md = PInf \<and> lab = ''Unknown'')
         \<or> (\<exists>i < length g. md = Fin (euclidean q (fst (g ! i))) \<and> lab = snd (g ! i)
               \<and> (\<forall>j < length g. euclidean q (fst (g ! i)) \<le> euclidean q (fst (g ! j)))
               \<and> (\<forall>j < i. euclidean q (fst (g ! i)) < euclidean q (fst (g ! j))))"
proof (cases g)
  case Nil
  with assms show ?thesis by simp
next
  case (Cons e g')
  then have "e \<in> set g" by simp
  then have "\<exists>x \<in> set g. less_x (euclidean q (fst x)) PInf" by (intro bexI [of _ e]) simp_all
  with scan_gallery_first_min [OF assms] show ?thesis by auto
qed


lemma first_minimum_unique:
  fixes D :: "nat \<Rightarrow> real"
  assumes "i < n" "\<forall>j < n. D i \<le> D j" "\<forall>j < i. D j \<noteq> D i"
    and "k < n" "\<forall>j < n. D k \<le> D j" "\<forall>j < k. D k < D j"
  shows "k = i"
proof -
  have eq: "D i = D k" using assms(1,2,4,5) by (simp add: order_antisym)
  have "\<not> i < k" using assms(6) eq by auto
  moreover have "\<not> k < i" using assms(3) eq by auto
  ultimately show ?thesis by simp
qed

section \<open>What one pass of \<open>recognize_faces\<close> does\<close>

text \<open>
  Only \<open>save_face_image\<close> touches the trace of recorder calls and the \<open>Face\<close> table; the
  other methods print at most.
\<close>

lemma save_face_image_effect:
  assumes "save_face_image E img lbl w = Inr w'"
  shows "save_calls w' = save_calls w @ [(img, lbl)]
         \<and> (\<exists>path. face_objects w' = face_objects w @ [(lbl, path)])"
  using assms
  by (auto simp: save_face_image_def Let_def print_def split: sum.splits if_splits)

lemma align_face_keeps:
  assumes "align_face E self img b w = Inr (a, w1)"
  shows "save_calls w1 = save_calls w \<and> face_objects w1 = face_objects w"
  using assms
  by (auto simp: align_face_def print_def split: prod.splits option.splits sum.splits)

lemma scan_gallery_keeps:
  assumes "scan_gallery q g ml w = (r, w2)"
  shows "save_calls w2 = save_calls w \<and> face_objects w2 = face_objects w"
proof -
  have "w2 = snd (scan_gallery q g ml w)" using assms by simp
  then show ?thesis by (simp add: scan_gallery_world)
qed

lemma detect_faces_keeps:
  assumes "detect_faces E self img t w = (fs, w1)"
  shows "save_calls w1 = save_calls w \<and> face_objects w1 = face_objects w"
  using assms
  by (auto simp: detect_faces_def print_def Let_def split: option.splits sum.splits if_splits)

lemma recognize_face_None:
  assumes "recognize_face E self frame t fc w = Inr (None, w')"
  shows "save_calls w' = save_calls w \<and> face_objects w' = face_objects w"
proof -
  obtain x y wd h where b: "box fc = (x, y, wd, h)" by (cases "box fc")
  show ?thesis
    using assms
    by (auto simp: recognize_face_def b Let_def extract_features_def
          split: if_splits sum.splits prod.splits option.splits dest: align_face_keeps)
qed

lemma recognize_face_Some:
  assumes "recognize_face E self frame t fc w = Inr (Some f', w')"
  shows "\<exists>aligned w1 arr md lab w2.
           \<not> out_of_bounds frame (box fc)
           \<and> align_face E self frame (box fc) w = Inr (aligned, w1)
           \<and> preprocess_image E (Some aligned) = Inr (Some arr)
           \<and> scan_gallery (model self arr)
                (zip (known_faces_features self) (known_faces_labels self))
                (PInf, ''Unknown'') w1 = ((md, lab), w2)
           \<and> f' = fc\<lparr>label := Some (if greater_x md t then ''Unknown'' else lab)\<rparr>
           \<and> save_face_image E (face_region frame (box fc))
                (if greater_x md t then ''Unknown'' else lab) w2 = Inr w'"
proof -
  obtain x y wd h where b: "box fc = (x, y, wd, h)" by (cases "box fc")
  show ?thesis
    using assms
    by (auto simp: recognize_face_def b Let_def extract_features_def out_of_bounds_def
          face_region_def
          split: if_splits sum.splits prod.splits option.splits)
qed

lemma recognize_face_Some_effect:
  assumes "recognize_face E self frame t fc w = Inr (Some f', w')"
  shows "\<exists>lbl path. label f' = Some lbl \<and> box f' = box fc
           \<and> \<not> out_of_bounds frame (box fc)
           \<and> save_calls w' = save_calls w @ [(face_region frame (box f'), lbl)]
           \<and> face_objects w' = face_objects w @ [(lbl, path)]"
proof -
  from recognize_face_Some [OF assms] obtain aligned w1 arr md lab w2 where
    oob: "\<not> out_of_bounds frame (box fc)"
    and al: "align_face E self frame (box fc) w = Inr (aligned, w1)"
    and sc: "scan_gallery (model self arr)
                (zip (known_faces_features self) (known_faces_labels self))
                (PInf, ''Unknown'') w1 = ((md, lab), w2)"
    and f': "f' = fc\<lparr>label := Some (if greater_x md t then ''Unknown'' else lab)\<rparr>"
    and sv: "save_face_image E (face_region frame (box fc))
                (if greater_x md t then ''Unknown'' else lab) w2 = Inr w'"
    by blast
  from save_face_image_effect [OF sv] obtain path where
    "save_calls w' = save_calls w2 @ [(face_region frame (box fc), if greater_x md t then ''Unknown'' else lab)]"
    "face_objects w' = face_objects w2 @ [(if greater_x md t then ''Unknown'' else lab, path)]"
    by blast
  moreover have "save_calls w2 = save_calls w" "face_objects w2 = face_objects w"
    using align_face_keeps [OF al] scan_gallery_keeps [OF sc] by simp_all
  ultimately show ?thesis using f' oob by simp
qed

lemma recognize_face_out_of_bounds:
  assumes "out_of_bounds frame (box fc)"
  shows "recognize_face E self frame t fc w = Inr (None, w)"
proof -
  obtain x y wd h where b: "box fc = (x, y, wd, h)" by (cases "box fc")
  show ?thesis using assms by (simp add: recognize_face_def out_of_bounds_def b)
qed

lemma recognize_face_None_cases:
  assumes "recognize_face E self frame t fc w = Inr (None, w')"
  shows "(out_of_bounds frame (box fc) \<and> w' = w)
         \<or> (\<exists>aligned. align_face E self frame (box fc) w = Inr (aligned, w')
                \<and> preprocess_image E (Some aligned) = Inr None)"
proof -
  obtain x y wd h where b: "box fc = (x, y, wd, h)" by (cases "box fc")
  show ?thesis
    using assms
    by (auto simp: recognize_face_def b Let_def extract_features_def out_of_bounds_def
          split: if_splits sum.splits prod.splits option.splits)
qed


lemma recognize_loop_trace:
  assumes "recognize_loop E self frame t faces acc w = Inr (res, w')"
  shows "\<exists>new calls rws. res = acc @ new
     \<and> save_calls w' = save_calls w @ calls
     \<and> face_objects w' = face_objects w @ rws
     \<and> map (\<lambda>(i, l). (i, Some l)) calls = map (\<lambda>f. (face_region frame (box f), label f)) new
     \<and> map (\<lambda>r. Some (fst r)) rws = map label new
     \<and> (\<forall>f' \<in> set new. \<exists>fc \<in> set faces. \<exists>w0 w1.
            recognize_face E self frame t fc w0 = Inr (Some f', w1))
     \<and> length new \<le> length (filter (\<lambda>fc. \<not> out_of_bounds frame (box fc)) faces)"
  using assms
proof (induction faces arbitrary: acc w)
  case Nil
  then show ?case by simp
next
  case (Cons fc rest)
  from Cons.prems obtain r w1 where
    step: "recognize_face E self frame t fc w = Inr (r, w1)"
    by (auto split: sum.splits)
  show ?case
  proof (cases r)
    case None
    with Cons.prems step have rec: "recognize_loop E self frame t rest acc w1 = Inr (res, w')"
      by simp
    from Cons.IH [OF rec] obtain new calls rws where
      n: "res = acc @ new" "save_calls w' = save_calls w1 @ calls"
         "face_objects w' = face_objects w1 @ rws"
         "map (\<lambda>(i, l). (i, Some l)) calls = map (\<lambda>f. (face_region frame (box f), label f)) new"
         "map (\<lambda>r. Some (fst r)) rws = map label new"
         "\<forall>f' \<in> set new. \<exists>fc \<in> set rest. \<exists>w0 w1.
            recognize_face E self frame t fc w0 = Inr (Some f', w1)"
         "length new \<le> length (filter (\<lambda>fc. \<not> out_of_bounds frame (box fc)) rest)"
      by blast
    have k: "save_calls w1 = save_calls w" "face_objects w1 = face_objects w"
      using recognize_face_None step None by blast+
    have a: "\<forall>f' \<in> set new. \<exists>fc' \<in> set (fc # rest). \<exists>w0 w1.
            recognize_face E self frame t fc' w0 = Inr (Some f', w1)"
      using n(6) by auto
    have b: "length new \<le> length (filter (\<lambda>fc. \<not> out_of_bounds frame (box fc)) (fc # rest))"
      using n(7) by simp
    show ?thesis
      using n(1-5) k a b by (intro exI [of _ new] exI [of _ calls] exI [of _ rws]) simp
  next
    case (Some f')
    with Cons.prems step have rec:
      "recognize_loop E self frame t rest (acc @ [f']) w1 = Inr (res, w')"
      by simp
    from Cons.IH [OF rec] obtain new calls rws where
      n: "res = (acc @ [f']) @ new" "save_calls w' = save_calls w1 @ calls"
         "face_objects w' = face_objects w1 @ rws"
         "map (\<lambda>(i, l). (i, Some l)) calls = map (\<lambda>f. (face_region frame (box f), label f)) new"
         "map (\<lambda>r. Some (fst r)) rws = map label new"
         "\<forall>f' \<in> set new. \<exists>fc \<in> set rest. \<exists>w0 w1.
            recognize_face E self frame t fc w0 = Inr (Some f', w1)"
         "length new \<le> length (filter (\<lambda>fc. \<not> out_of_bounds frame (box fc)) rest)"
      by blast
    have st: "recognize_face E self frame t fc w = Inr (Some f', w1)"
      using step Some by simp
    from recognize_face_Some_effect [OF st] obtain lbl path where
      e: "label f' = Some lbl" "box f' = box fc" "\<not> out_of_bounds frame (box fc)"
         "save_calls w1 = save_calls w @ [(face_region frame (box f'), lbl)]"
         "face_objects w1 = face_objects w @ [(lbl, path)]"
      by blast
    have a: "\<forall>g \<in> set (f' # new). \<exists>fc' \<in> set (fc # rest). \<exists>w0 w1.
            recognize_face E self frame t fc' w0 = Inr (Some g, w1)"
      using n(6) st by auto
    have b: "length (f' # new) \<le> length (filter (\<lambda>fc. \<not> out_of_bounds frame (box fc)) (fc # rest))"
      using n(7) e(3) by simp
    show ?thesis
      using n(1-5) e a b
      by (intro exI [of _ "f' # new"] exI [of _ "(face_region frame (box f'), lbl) # calls"]
            exI [of _ "(lbl, path) # rws"]) simp
  qed
qed

lemma recognize_loop_in_bounds_only:
  "recognize_loop E self frame t faces acc w =
     recognize_loop E self frame t (filter (\<lambda>fc. \<not> out_of_bounds frame (box fc)) faces) acc w"
proof (induction faces arbitrary: acc w)
  case Nil
  show ?case by simp
next
  case (Cons fc rest)
  show ?case
  proof (cases "out_of_bounds frame (box fc)")
    case True
    then show ?thesis by (simp add: recognize_face_out_of_bounds Cons.IH)
  next
    case False
    then show ?thesis
      by (auto simp: Cons.IH split: sum.splits option.splits prod.splits)
  qed
qed

lemma recognize_faces_unfold:
  assumes "recognize_faces E self (Some frame) t w = Inr (res, w')"
  shows "\<exists>gray gray3 faces w1.
           cv_cvtColor E frame COLOR_BGR2GRAY = Inr gray
           \<and> cv_cvtColor E gray COLOR_GRAY2BGR = Inr gray3
           \<and> detect_faces E self (Some gray3) default_confidence_threshold w = (faces, w1)
           \<and> recognize_loop E self frame t faces [] w1 = Inr (res, w')"
  using assms
  by (auto simp: recognize_faces_def split: sum.splits prod.splits)

lemma recognize_faces_trace:
  assumes "recognize_faces E self (Some frame) t w = Inr (res, w')"
  shows "\<exists>calls. save_calls w' = save_calls w @ calls
           \<and> map (\<lambda>(i, l). (i, Some l)) calls = map (\<lambda>f. (face_region frame (box f), label f)) res"
proof -
  from recognize_faces_unfold [OF assms] obtain gray3 faces w1 where
    d: "detect_faces E self (Some gray3) default_confidence_threshold w = (faces, w1)"
    and lp: "recognize_loop E self frame t faces [] w1 = Inr (res, w')" by blast
  from recognize_loop_trace [OF lp] obtain calls where
    "save_calls w' = save_calls w1 @ calls"
    "map (\<lambda>(i, l). (i, Some l)) calls = map (\<lambda>f. (face_region frame (box f), label f)) res"
    by auto
  then show ?thesis using detect_faces_keeps [OF d] by simp
qed

lemma recognized_face_label:
  assumes "recognize_faces E self (Some frame) t w = Inr (res, w')" and "f \<in> set res"
  shows "\<exists>w0 aligned w1 arr md lab w2.
           align_face E self frame (box f) w0 = Inr (aligned, w1)
           \<and> preprocess_image E (Some aligned) = Inr (Some arr)
           \<and> scan_gallery (model self arr)
                (zip (known_faces_features self) (known_faces_labels self))
                (PInf, ''Unknown'') w1 = ((md, lab), w2)
           \<and> label f = Some (if greater_x md t then ''Unknown'' else lab)"
proof -
  from recognize_faces_unfold [OF assms(1)] obtain faces w1 where
    "recognize_loop E self frame t faces [] w1 = Inr (res, w')" by blast
  from recognize_loop_trace [OF this] assms(2) obtain fc w0 w3 where
    "recognize_face E self frame t fc w0 = Inr (Some f, w3)" by auto
  from recognize_face_Some [OF this] show ?thesis by fastforce
qed

section \<open>Two runs of the concrete installation\<close>

lemma euclidean_single: "euclidean [a] [b] = \<bar>a - b\<bar>"
  by (simp add: euclidean_def)

lemmas lab_defs = lab_env_def lab_self_def lab_known_def lab_faces_def world0_def blank_def

lemmas run_defs = recognize_faces_def detect_faces_def default_confidence_threshold_def
  img_size_def rescale_box_def recognize_face_def align_face_def preprocess_image_def
  extract_features_def euclidean_single save_face_image_def path_join_def print_def
  face_region_def Let_def

lemma lab_run:
  "\<exists>w'. recognize_faces lab_env lab_known (Some (blank 240 320 3)) 7 world0
          = Inr ([\<lparr>box = (20, 20, 40, 40), confidence = 0.9, label = Some ''bob''\<rparr>], w')
        \<and> save_calls w' = [(face_region (blank 240 320 3) (20, 20, 40, 40), ''bob'')]
        \<and> face_objects w' = [(''bob'', ''faces_seen/bob_20240101_120000.jpg'')]"
  by (simp add: run_defs lab_defs)

lemma lab_run_empty:
  "\<exists>w'. recognize_faces lab_env lab_self (Some (blank 240 320 3)) 7 world0
          = Inr ([\<lparr>box = (20, 20, 40, 40), confidence = 0.9, label = Some ''Unknown''\<rparr>], w')"
  by (simp add: run_defs lab_defs)

section \<open>The matcher\<close>



text \<open>
  C3. The scan compares with a strict \<open><\<close>, so it returns the entry that attains the least
  distance first in gallery order: if entry \<open>i\<close> is at least distance and no earlier entry is
  at the same distance, the scan ends with that distance and the label of entry \<open>i\<close>; and
  a face returned by \<open>recognize_faces\<close> carries that label whenever the distance does not
  exceed the threshold.
\<close>

theorem first_minimum_wins:
  "(i < length g
      \<and> (\<forall>j < length g. euclidean q (fst (g ! i)) \<le> euclidean q (fst (g ! j)))
      \<and> (\<forall>j < i. euclidean q (fst (g ! j)) \<noteq> euclidean q (fst (g ! i)))
    \<longrightarrow> fst (scan_gallery q g (PInf, ''Unknown'') w)
          = (Fin (euclidean q (fst (g ! i))), snd (g ! i)))
   \<and> (recognize_faces E self (Some frame) t w0 = Inr (res, w') \<and> f \<in> set res
    \<longrightarrow> (\<exists>wa aligned wb arr.
           align_face E self frame (box f) wa = Inr (aligned, wb)
           \<and> preprocess_image E (Some aligned) = Inr (Some arr)
           \<and> (let q = model self arr;
                   g = zip (known_faces_features self) (known_faces_labels self)
               in \<forall>i < length g.
                    (\<forall>j < length g. euclidean q (fst (g ! i)) \<le> euclidean q (fst (g ! j)))
                    \<and> (\<forall>j < i. euclidean q (fst (g ! j)) \<noteq> euclidean q (fst (g ! i)))
                    \<and> euclidean q (fst (g ! i)) \<le> t
                    \<longrightarrow> label f = Some (snd (g ! i)))))"
proof (intro conjI impI)
  assume a: "i < length g
      \<and> (\<forall>j < length g. euclidean q (fst (g ! i)) \<le> euclidean q (fst (g ! j)))
      \<and> (\<forall>j < i. euclidean q (fst (g ! j)) \<noteq> euclidean q (fst (g ! i)))"
  obtain md lab w2 where sc: "scan_gallery q g (PInf, ''Unknown'') w = ((md, lab), w2)"
    by (metis prod.exhaust)
  from a have "g \<noteq> []" by auto
  with scan_gallery_from_inf [OF sc] obtain k where
    k: "k < length g" "md = Fin (euclidean q (fst (g ! k)))" "lab = snd (g ! k)"
       "\<forall>j < length g. euclidean q (fst (g ! k)) \<le> euclidean q (fst (g ! j))"
       "\<forall>j < k. euclidean q (fst (g ! k)) < euclidean q (fst (g ! j))"
    by blast
  have "k = i"
    using a k(1,4,5)
    by (intro first_minimum_unique [of i "length g" "\<lambda>n. euclidean q (fst (g ! n))"]) simp_all
  with sc k show "fst (scan_gallery q g (PInf, ''Unknown'') w)
          = (Fin (euclidean q (fst (g ! i))), snd (g ! i))" by simp
next
  assume "recognize_faces E self (Some frame) t w0 = Inr (res, w') \<and> f \<in> set res"
  then have r: "recognize_faces E self (Some frame) t w0 = Inr (res, w')" and f: "f \<in> set res"
    by simp_all
  define g where "g = zip (known_faces_features self) (known_faces_labels self)"
  from recognized_face_label [OF r f] obtain wa aligned wb arr md lab w2 where
    al: "align_face E self frame (box f) wa = Inr (aligned, wb)"
    and pp: "preprocess_image E (Some aligned) = Inr (Some arr)"
    and sc: "scan_gallery (model self arr) g (PInf, ''Unknown'') wb = ((md, lab), w2)"
    and l: "label f = Some (if greater_x md t then ''Unknown'' else lab)"
    unfolding g_def by blast
  define q where "q = model self arr"
  have "\<forall>i < length g.
           (\<forall>j < length g. euclidean q (fst (g ! i)) \<le> euclidean q (fst (g ! j)))
           \<and> (\<forall>j < i. euclidean q (fst (g ! j)) \<noteq> euclidean q (fst (g ! i)))
           \<and> euclidean q (fst (g ! i)) \<le> t
           \<longrightarrow> label f = Some (snd (g ! i))"
  proof (intro allI impI)
    fix i assume i: "i < length g"
      and h: "(\<forall>j < length g. euclidean q (fst (g ! i)) \<le> euclidean q (fst (g ! j)))
           \<and> (\<forall>j < i. euclidean q (fst (g ! j)) \<noteq> euclidean q (fst (g ! i)))
           \<and> euclidean q (fst (g ! i)) \<le> t"
    from i have "g \<noteq> []" by auto
    with scan_gallery_from_inf [OF sc] obtain k where
      k: "k < length g" "md = Fin (euclidean q (fst (g ! k)))" "lab = snd (g ! k)"
         "\<forall>j < length g. euclidean q (fst (g ! k)) \<le> euclidean q (fst (g ! j))"
         "\<forall>j < k. euclidean q (fst (g ! k)) < euclidean q (fst (g ! j))"
      unfolding q_def by blast
    have "k = i"
      using i h k(1,4,5)
      by (intro first_minimum_unique [of i "length g" "\<lambda>n. euclidean q (fst (g ! n))"]) simp_all
    with k(2,3) h l show "label f = Some (snd (g ! i))" by simp
  qed
  with al pp show "\<exists>wa aligned wb arr.
           align_face E self frame (box f) wa = Inr (aligned, wb)
           \<and> preprocess_image E (Some aligned) = Inr (Some arr)
           \<and> (let q = model self arr;
                   g = zip (known_faces_features self) (known_faces_labels self)
               in \<forall>i < length g.
                    (\<forall>j < length g. euclidean q (fst (g ! i)) \<le> euclidean q (fst (g ! j)))
                    \<and> (\<forall>j < i. euclidean q (fst (g ! j)) \<noteq> euclidean q (fst (g ! i)))
                    \<and> euclidean q (fst (g ! i)) \<le> t
                    \<longrightarrow> label f = Some (snd (g ! i)))"
    unfolding Let_def q_def g_def by blast
qed

theorem first_minimum_wins_witness:
  "fst (scan_gallery [0] [([5], ''alice''), ([3], ''bob''), ([-3], ''carol'')]
          (PInf, ''Unknown'') world0) = (Fin 3, ''bob'')
   \<and> (\<exists>w'. recognize_faces lab_env lab_known (Some (blank 240 320 3)) 7 world0
          = Inr ([\<lparr>box = (20, 20, 40, 40), confidence = 0.9, label = Some ''bob''\<rparr>], w'))
   \<and> (\<exists>wa aligned wb arr.
         align_face lab_env lab_known (blank 240 320 3) (20, 20, 40, 40) wa = Inr (aligned, wb)
         \<and> preprocess_image lab_env (Some aligned) = Inr (Some arr))"
proof -
  define g :: "(real list \<times> string) list"
    where "g = [([5], ''alice''), ([3], ''bob''), ([-3], ''carol'')]"
  have len: "length g = 3" by (simp add: g_def)
  have d0: "euclidean [0] (fst (g ! 0)) = 5" by (simp add: g_def euclidean_single)
  have d1: "euclidean [0] (fst (g ! 1)) = 3" by (simp add: g_def euclidean_single)
  have d2: "euclidean [0] (fst (g ! 2)) = 3" by (simp add: g_def euclidean_single)
  have l1: "snd (g ! 1) = ''bob''" by (simp add: g_def)
  have a: "\<forall>j < length g. euclidean [0] (fst (g ! 1)) \<le> euclidean [0] (fst (g ! j))"
  proof (intro allI impI)
    fix j assume "j < length g"
    then have "j = 0 \<or> j = 1 \<or> j = 2" using len by auto
    then show "euclidean [0] (fst (g ! 1)) \<le> euclidean [0] (fst (g ! j))"
      using d0 d1 d2 by auto
  qed
  have b: "\<forall>j < 1. euclidean [0] (fst (g ! j)) \<noteq> euclidean [0] (fst (g ! 1))"
  proof (intro allI impI)
    fix j :: nat assume "j < 1"
    then have "j = 0" by simp
    then show "euclidean [0] (fst (g ! j)) \<noteq> euclidean [0] (fst (g ! 1))"
      using d0 d1 by simp
  qed
  have hyp: "1 < length g
      \<and> (\<forall>j < length g. euclidean [0] (fst (g ! 1)) \<le> euclidean [0] (fst (g ! j)))
      \<and> (\<forall>j < 1. euclidean [0] (fst (g ! j)) \<noteq> euclidean [0] (fst (g ! 1)))"
    using len a b by simp
  have "fst (scan_gallery [0] g (PInf, ''Unknown'') world0)
                = (Fin (euclidean [0] (fst (g ! 1))), snd (g ! 1))"
    by (rule first_minimum_wins [where i = 1 and g = g and q = "[0]" and w = world0,
          THEN conjunct1, THEN mp, OF hyp])
  then have scan: "fst (scan_gallery [0] [([5], ''alice''), ([3], ''bob''), ([-3], ''carol'')]
          (PInf, ''Unknown'') world0) = (Fin 3, ''bob'')"
    by (simp only: d1 l1) (simp only: g_def)
  from lab_run obtain w' where
    run: "recognize_faces lab_env lab_known (Some (blank 240 320 3)) 7 world0
          = Inr ([\<lparr>box = (20, 20, 40, 40), confidence = 0.9, label = Some ''bob''\<rparr>], w')"
    by blast
  have m: "\<lparr>box = (20, 20, 40, 40), confidence = 0.9, label = Some ''bob''\<rparr> \<in> set [\<lparr>box = (20, 20, 40, 40), confidence = 0.9, label = Some ''bob''\<rparr>]"
    by simp
  have rm: "recognize_faces lab_env lab_known (Some (blank 240 320 3)) 7 world0
          = Inr ([\<lparr>box = (20, 20, 40, 40), confidence = 0.9, label = Some ''bob''\<rparr>], w') \<and> \<lparr>box = (20, 20, 40, 40), confidence = 0.9, label = Some ''bob''\<rparr> \<in> set [\<lparr>box = (20, 20, 40, 40), confidence = 0.9, label = Some ''bob''\<rparr>]"
    using run m by (rule conjI)
  note second = first_minimum_wins [where E = lab_env and self = lab_known
      and frame = "blank 240 320 3" and t = 7 and ?w0.0 = world0 and w' = w'
      and res = "[\<lparr>box = (20, 20, 40, 40), confidence = 0.9, label = Some ''bob''\<rparr>]" and f = "\<lparr>box = (20, 20, 40, 40), confidence = 0.9, label = Some ''bob''\<rparr>", THEN conjunct2, THEN mp, OF rm]
  then obtain wa aligned wb arr where
    al: "align_face lab_env lab_known (blank 240 320 3) (box \<lparr>box = (20, 20, 40, 40), confidence = 0.9, label = Some ''bob''\<rparr>) wa = Inr (aligned, wb)"
    and pp: "preprocess_image lab_env (Some aligned) = Inr (Some arr)"
    by blast
  from al have al': "align_face lab_env lab_known (blank 240 320 3) (20, 20, 40, 40) wa
                      = Inr (aligned, wb)"
    by simp
  from scan run al' pp show ?thesis by blast
qed

text \<open>
  C9. Every face returned by \<open>recognize_faces\<close> is labelled \<open>Unknown\<close> or with one of
  \<open>known_faces_labels\<close>.
\<close>

theorem recognize_faces_labels_from_gallery:
  assumes "recognize_faces E self (Some frame) t w = Inr (res, w')" and "f \<in> set res"
  shows "label f = Some ''Unknown'' \<or> (\<exists>l \<in> set (known_faces_labels self). label f = Some l)"
proof -
  define g where "g = zip (known_faces_features self) (known_faces_labels self)"
  from recognized_face_label [OF assms] obtain arr md lab w1 w2 where
    sc: "scan_gallery (model self arr) g (PInf, ''Unknown'') w1 = ((md, lab), w2)"
    and l: "label f = Some (if greater_x md t then ''Unknown'' else lab)"
    unfolding g_def by blast
  from scan_gallery_from_inf [OF sc] have "lab = ''Unknown'' \<or> lab \<in> snd ` set g"
    by auto
  moreover have "snd ` set g \<subseteq> set (known_faces_labels self)"
    unfolding g_def by (auto dest: set_zip_rightD)
  ultimately show ?thesis using l by auto
qed

theorem recognize_faces_labels_from_gallery_witness:
  "(\<exists>w'. recognize_faces lab_env lab_known (Some (blank 240 320 3)) 7 world0
          = Inr ([\<lparr>box = (20, 20, 40, 40), confidence = 0.9, label = Some ''bob''\<rparr>], w'))
   \<and> (label \<lparr>box = (20, 20, 40, 40), confidence = 0.9, label = Some ''bob''\<rparr> = Some ''Unknown''
      \<or> (\<exists>l \<in> set (known_faces_labels lab_known).
            label \<lparr>box = (20, 20, 40, 40), confidence = 0.9, label = Some ''bob''\<rparr> = Some l))"
proof -
  from lab_run obtain w' where
    run: "recognize_faces lab_env lab_known (Some (blank 240 320 3)) 7 world0
          = Inr ([\<lparr>box = (20, 20, 40, 40), confidence = 0.9, label = Some ''bob''\<rparr>], w')"
    by blast
  have m: "\<lparr>box = (20, 20, 40, 40), confidence = 0.9, label = Some ''bob''\<rparr>
             \<in> set [\<lparr>box = (20, 20, 40, 40), confidence = 0.9, label = Some ''bob''\<rparr>]"
    by simp
  from recognize_faces_labels_from_gallery [OF run m] run show ?thesis by blast
qed

text \<open>
  C10. With an empty gallery every face returned by \<open>recognize_faces\<close>, for any (finite)
  threshold, is labelled \<open>Unknown\<close>, and for each of them, in order, the recorder was
  called with the face's region and \<open>Unknown\<close> and a row named \<open>Unknown\<close> was created.
\<close>

theorem recognize_faces_empty_gallery:
  assumes "recognize_faces E self (Some frame) t w = Inr (res, w')"
    and "known_faces_features self = [] \<or> known_faces_labels self = []"
  shows "(\<forall>f \<in> set res. label f = Some ''Unknown'')
         \<and> save_calls w' = save_calls w @ map (\<lambda>f. (face_region frame (box f), ''Unknown'')) res
         \<and> (\<exists>rws. face_objects w' = face_objects w @ rws
                \<and> map fst rws = map (\<lambda>f. ''Unknown'') res)"
proof -
  have g: "zip (known_faces_features self) (known_faces_labels self) = []"
    using assms(2) by auto
  have lab: "\<forall>f \<in> set res. label f = Some ''Unknown''"
  proof
    fix f assume "f \<in> set res"
    from recognized_face_label [OF assms(1) this] obtain arr md lab w1 w2 where
      sc: "scan_gallery (model self arr) [] (PInf, ''Unknown'') w1 = ((md, lab), w2)"
      and l: "label f = Some (if greater_x md t then ''Unknown'' else lab)"
      unfolding g by blast
    from sc l show "label f = Some ''Unknown''" by simp
  qed
  from recognize_faces_unfold [OF assms(1)] obtain gray3 faces w1 where
    d: "detect_faces E self (Some gray3) default_confidence_threshold w = (faces, w1)"
    and lp: "recognize_loop E self frame t faces [] w1 = Inr (res, w')" by blast
  from recognize_loop_trace [OF lp] obtain calls rws where
    c: "save_calls w' = save_calls w1 @ calls" "face_objects w' = face_objects w1 @ rws"
       "map (\<lambda>(i, l). (i, Some l)) calls = map (\<lambda>f. (face_region frame (box f), label f)) res"
       "map (\<lambda>r. Some (fst r)) rws = map label res"
    by auto
  have k: "save_calls w1 = save_calls w" "face_objects w1 = face_objects w"
    using detect_faces_keeps [OF d] by simp_all
  have "map (\<lambda>(i, l). (i, Some l)) calls
          = map (\<lambda>(i, l). (i, Some l)) (map (\<lambda>f. (face_region frame (box f), ''Unknown'')) res)"
    using c(3) lab by (simp add: comp_def)
  then have calls: "calls = map (\<lambda>f. (face_region frame (box f), ''Unknown'')) res"
    by (rule map_injective) (auto simp: inj_on_def)
  have "map (\<lambda>r. Some (fst r)) rws = map Some (map (\<lambda>f. ''Unknown'') res)"
    using c(4) lab by simp
  then have "map Some (map fst rws) = map Some (map (\<lambda>f. ''Unknown'') res)"
    by (simp add: comp_def)
  then have rws: "map fst rws = map (\<lambda>f. ''Unknown'') res"
    by (rule map_injective) simp
  show ?thesis using lab c(1,2) k calls rws by auto
qed

theorem recognize_faces_empty_gallery_witness:
  "\<exists>w'. recognize_faces lab_env lab_self (Some (blank 240 320 3)) 7 world0
          = Inr ([\<lparr>box = (20, 20, 40, 40), confidence = 0.9, label = Some ''Unknown''\<rparr>], w')
        \<and> save_calls w' = [(face_region (blank 240 320 3) (20, 20, 40, 40), ''Unknown'')]
        \<and> map fst (face_objects w') = [''Unknown'']"
proof -
  from lab_run_empty obtain w' where
    run: "recognize_faces lab_env lab_self (Some (blank 240 320 3)) 7 world0
          = Inr ([\<lparr>box = (20, 20, 40, 40), confidence = 0.9, label = Some ''Unknown''\<rparr>], w')"
    by blast
  have e: "known_faces_features lab_self = [] \<or> known_faces_labels lab_self = []"
    by (simp add: lab_self_def)
  note c = recognize_faces_empty_gallery [OF run e]
  from c have sc: "save_calls w' = save_calls world0
           @ map (\<lambda>f. (face_region (blank 240 320 3) (box f), ''Unknown'')) [\<lparr>box = (20, 20, 40, 40), confidence = 0.9, label = Some ''Unknown''\<rparr>]"
    by blast
  from c obtain rws where rws: "face_objects w' = face_objects world0 @ rws"
    "map fst rws = map (\<lambda>f. ''Unknown'') [\<lparr>box = (20, 20, 40, 40), confidence = 0.9, label = Some ''Unknown''\<rparr>]"
    by blast
  have s0: "save_calls world0 = []" "face_objects world0 = []"
    by (simp_all add: world0_def)
  have a: "save_calls w' = [(face_region (blank 240 320 3) (20, 20, 40, 40), ''Unknown'')]"
    using sc s0 by simp
  have b: "map fst (face_objects w') = [''Unknown'']"
    using rws s0 by simp
  from run a b show ?thesis by (intro exI [of _ w'] conjI)
qed

section \<open>Skipped faces and recorded sightings\<close>

text \<open>
  C6. A box with \<open>x < 0\<close>, \<open>y < 0\<close>, \<open>x + width\<close> beyond the frame's width or
  \<open>y + height\<close> beyond its height is skipped: the loop body returns nothing for it and
  leaves the world as it was, so the loop runs as if on the in-bounds faces alone; no
  returned face has such a box, and every recorder call of the run was made for a returned,
  in-bounds face.
\<close>

theorem recognize_faces_skips_out_of_bounds:
  "out_of_bounds frame (x, y, wd, h)
     = (x < 0 \<or> y < 0 \<or> x + wd > int (cols frame) \<or> y + h > int (rows frame))
   \<and> (out_of_bounds frame (box fc) \<longrightarrow> recognize_face E self frame t fc w0 = Inr (None, w0))
   \<and> recognize_loop E self frame t faces acc w0
       = recognize_loop E self frame t
           (filter (\<lambda>fc. \<not> out_of_bounds frame (box fc)) faces) acc w0
   \<and> (recognize_faces E self (Some frame) t w = Inr (res, w')
      \<longrightarrow> (\<forall>f \<in> set res. \<not> out_of_bounds frame (box f))
          \<and> (\<exists>calls. save_calls w' = save_calls w @ calls
                \<and> (\<forall>c \<in> set calls. \<exists>f \<in> set res.
                       \<not> out_of_bounds frame (box f) \<and> fst c = face_region frame (box f))))"
proof (intro conjI impI)
  show "out_of_bounds frame (x, y, wd, h)
     = (x < 0 \<or> y < 0 \<or> x + wd > int (cols frame) \<or> y + h > int (rows frame))"
    by (simp add: out_of_bounds_def)
next
  assume "out_of_bounds frame (box fc)"
  then show "recognize_face E self frame t fc w0 = Inr (None, w0)"
    by (rule recognize_face_out_of_bounds)
next
  show "recognize_loop E self frame t faces acc w0
       = recognize_loop E self frame t
           (filter (\<lambda>fc. \<not> out_of_bounds frame (box fc)) faces) acc w0"
    by (rule recognize_loop_in_bounds_only)
next
  assume r: "recognize_faces E self (Some frame) t w = Inr (res, w')"
  from recognize_faces_unfold [OF r] obtain faces' w1 where
    lp: "recognize_loop E self frame t faces' [] w1 = Inr (res, w')" by blast
  show inb: "\<forall>f \<in> set res. \<not> out_of_bounds frame (box f)"
  proof
    fix f assume "f \<in> set res"
    with recognize_loop_trace [OF lp] obtain fc' wa wb where
      "recognize_face E self frame t fc' wa = Inr (Some f, wb)" by auto
    from recognize_face_Some_effect [OF this] show "\<not> out_of_bounds frame (box f)" by auto
  qed
  from recognize_faces_trace [OF r] obtain calls where
    c: "save_calls w' = save_calls w @ calls"
       "map (\<lambda>(i, l). (i, Some l)) calls = map (\<lambda>f. (face_region frame (box f), label f)) res"
    by blast
  have "\<forall>c \<in> set calls. \<exists>f \<in> set res.
           \<not> out_of_bounds frame (box f) \<and> fst c = face_region frame (box f)"
  proof
    fix cl assume "cl \<in> set calls"
    then obtain n where n: "n < length calls" "calls ! n = cl"
      by (auto simp: in_set_conv_nth)
    have len: "length calls = length res" using c(2) by (rule map_eq_imp_length_eq)
    have "map (\<lambda>(i, l). (i, Some l)) calls ! n
            = map (\<lambda>f. (face_region frame (box f), label f)) res ! n"
      using c(2) by simp
    then have "fst cl = face_region frame (box (res ! n))"
      using n len by (cases cl) auto
    moreover have "res ! n \<in> set res" using n len by simp
    ultimately show "\<exists>f \<in> set res.
           \<not> out_of_bounds frame (box f) \<and> fst cl = face_region frame (box f)"
      using inb by blast
  qed
  with c(1) show "\<exists>calls. save_calls w' = save_calls w @ calls
                \<and> (\<forall>c \<in> set calls. \<exists>f \<in> set res.
                       \<not> out_of_bounds frame (box f) \<and> fst c = face_region frame (box f))"
    by blast
qed

theorem recognize_faces_skips_out_of_bounds_witness:
  "out_of_bounds (blank 240 320 3) (-10, 20, 40, 40)
   \<and> recognize_face lab_env lab_known (blank 240 320 3) 7
        \<lparr>box = (-10, 20, 40, 40), confidence = 0.8, label = None\<rparr> world0 = Inr (None, world0)
   \<and> (\<exists>w'. recognize_faces lab_env lab_known (Some (blank 240 320 3)) 7 world0
          = Inr ([\<lparr>box = (20, 20, 40, 40), confidence = 0.9, label = Some ''bob''\<rparr>], w')
        \<and> length (save_calls w') = 1)"
proof -
  from lab_run obtain w' where
    run: "recognize_faces lab_env lab_known (Some (blank 240 320 3)) 7 world0
          = Inr ([\<lparr>box = (20, 20, 40, 40), confidence = 0.9, label = Some ''bob''\<rparr>], w')"
    and calls: "save_calls w' = [(face_region (blank 240 320 3) (20, 20, 40, 40), ''bob'')]"
    by blast
  note thm1 = recognize_faces_skips_out_of_bounds [where E = lab_env and self = lab_known
      and frame = "blank 240 320 3" and t = 7 and w = world0 and w' = w'
      and res = "[\<lparr>box = (20, 20, 40, 40), confidence = 0.9, label = Some ''bob''\<rparr>]"
      and fc = "\<lparr>box = (-10, 20, 40, 40), confidence = 0.8, label = None\<rparr>"
      and ?w0.0 = world0 and x = "-10" and y = 20 and wd = 40 and h = 40]
  have oob: "out_of_bounds (blank 240 320 3) (-10, 20, 40, 40)"
    using thm1 by simp
  then have "out_of_bounds (blank 240 320 3)
               (box \<lparr>box = (-10, 20, 40, 40), confidence = 0.8, label = None\<rparr>)"
    by simp
  with thm1 have b: "recognize_face lab_env lab_known (blank 240 320 3) 7
        \<lparr>box = (-10, 20, 40, 40), confidence = 0.8, label = None\<rparr> world0 = Inr (None, world0)"
    by blast
  from thm1 run have "\<forall>f \<in> set [\<lparr>box = (20, 20, 40, 40), confidence = 0.9, label = Some ''bob''\<rparr>].
           \<not> out_of_bounds (blank 240 320 3) (box f)"
    by blast
  from run calls have "\<exists>w'. recognize_faces lab_env lab_known (Some (blank 240 320 3)) 7 world0
          = Inr ([\<lparr>box = (20, 20, 40, 40), confidence = 0.9, label = Some ''bob''\<rparr>], w')
        \<and> length (save_calls w') = 1"
    by auto
  with oob b show ?thesis by blast
qed



section \<open>Loading the gallery\<close>









text \<open>
  What the methods print does not depend on the world they start from, and neither the
  detection nor the extraction looks at the gallery.
\<close>

lemma detect_faces_lines:
  "\<exists>fs ls. \<forall>u. detect_faces E self img t u = (fs, u\<lparr>stdout := stdout u @ ls\<rparr>)"
proof (cases img)
  case None
  show ?thesis
    by (intro exI [of _ "[]"] exI [of _ "[EmptyImage]"]) (simp add: detect_faces_def print_def None)
next
  case (Some im)
  show ?thesis
  proof (cases "img_size im = 0")
    case True
    then show ?thesis
      by (intro exI [of _ "[]"] exI [of _ "[EmptyImage]"])
        (simp add: detect_faces_def print_def Some)
  next
    case False
    show ?thesis
    proof (cases "cv_resize E im (160, 120)")
      case (Inl e)
      with False show ?thesis
        by (intro exI [of _ "[]"] exI [of _ "[ResizeFailed e]"])
          (simp add: detect_faces_def print_def Some)
    next
      case (Inr small)
      with False show ?thesis
        by (intro exI [of _ "filter (\<lambda>face. confidence face \<ge> t)
                 (map (\<lambda>face. face\<lparr>box := rescale_box (box face)\<rparr>) (detector self small))"]
              exI [of _ "[]"])
          (simp add: detect_faces_def Some)
    qed
  qed
qed

lemma align_face_lines:
  "\<exists>r. \<forall>u. align_face E self img b u
           = (case r of Inl e \<Rightarrow> Inl e
              | Inr (a, ms) \<Rightarrow> Inr (a, u\<lparr>stdout := stdout u @ ms\<rparr>))"
proof -
  obtain x y wd h where b: "b = (x, y, wd, h)" by (cases b)
  show ?thesis
  proof (cases "shape_predictor self")
    case None
    show ?thesis
      by (intro exI [of _ "Inr (img, [PredictorNotLoaded])"])
        (simp add: align_face_def print_def None b)
  next
    case (Some p)
    show ?thesis
    proof (cases "warp_affine E img (p img (x, y, x + wd, y + h))")
      case (Inl e)
      then show ?thesis
        by (intro exI [of _ "Inl e"]) (simp add: align_face_def Some b)
    next
      case (Inr a)
      then show ?thesis
        by (intro exI [of _ "Inr (a, [])"]) (simp add: align_face_def Some b)
    qed
  qed
qed

lemma preprocess_and_extract_lines:
  "\<exists>r. \<forall>u. preprocess_and_extract E self img u
           = (case r of Inl e \<Rightarrow> Inl e
              | Inr (x, ms) \<Rightarrow> Inr (x, u\<lparr>stdout := stdout u @ ms\<rparr>))"
proof -
  from detect_faces_lines obtain fs ls where
    d: "\<forall>u. detect_faces E self img default_confidence_threshold u
              = (fs, u\<lparr>stdout := stdout u @ ls\<rparr>)"
    by blast
  show ?thesis
  proof (cases fs)
    case Nil
    show ?thesis
      by (intro exI [of _ "Inr (None, ls)"]) (simp add: preprocess_and_extract_def d Nil)
  next
    case (Cons f rest)
    show ?thesis
    proof (cases img)
      case None
      have "\<forall>u. preprocess_and_extract E self img u = Inl TypeError"
        unfolding preprocess_and_extract_def by (simp add: d Cons) (simp add: None)
      then show ?thesis
        by (intro exI [of _ "Inl TypeError"]) simp
    next
      case (Some im)
      from align_face_lines obtain ra where
        a: "\<forall>u. align_face E self im (box f) u
                 = (case ra of Inl e \<Rightarrow> Inl e
                    | Inr (a, ms) \<Rightarrow> Inr (a, u\<lparr>stdout := stdout u @ ms\<rparr>))"
        by blast
      have step: "\<forall>u. preprocess_and_extract E self img u
               = (case align_face E self im (box f) (u\<lparr>stdout := stdout u @ ls\<rparr>) of
                    Inl e \<Rightarrow> Inl e
                  | Inr (aligned_face, w2) \<Rightarrow>
                      (case preprocess_image E (Some aligned_face) of
                         Inl e \<Rightarrow> Inl e
                       | Inr None \<Rightarrow> Inr (None, w2)
                       | Inr (Some face_array) \<Rightarrow>
                           Inr (extract_features self (Some face_array), w2)))"
        unfolding preprocess_and_extract_def by (simp add: d Cons) (simp add: Some)
      show ?thesis
      proof (cases ra)
        case (Inl e)
        show ?thesis
          by (intro exI [of _ "Inl e"]) (simp add: step a Inl)
      next
        case (Inr p)
        obtain al ms where p: "p = (al, ms)" by (cases p)
        show ?thesis
        proof (cases "preprocess_image E (Some al)")
          case (Inl e)
          then show ?thesis
            by (intro exI [of _ "Inl e"]) (simp add: step a Inr p)
        next
          case pr: (Inr arr)
          show ?thesis
          proof (cases arr)
            case None
            with pr show ?thesis
              by (intro exI [of _ "Inr (None, ls @ ms)"]) (simp add: step a Inr p)
          next
            case (Some face_array)
            with pr show ?thesis
              by (intro exI [of _ "Inr (extract_features self (Some face_array), ls @ ms)"])
                (simp add: step a Inr p)
          qed
        qed
      qed
    qed
  qed
qed

lemma detect_faces_gallery:
  "detect_faces E (self\<lparr>known_faces_features := F, known_faces_labels := L\<rparr>) img t w
     = detect_faces E self img t w"
  by (simp add: detect_faces_def split: option.splits sum.splits)

lemma align_face_gallery:
  "align_face E (self\<lparr>known_faces_features := F, known_faces_labels := L\<rparr>) img b w
     = align_face E self img b w"
  by (simp add: align_face_def)

lemma extract_features_gallery:
  "extract_features (self\<lparr>known_faces_features := F, known_faces_labels := L\<rparr>) a
     = extract_features self a"
  by (cases a) (simp_all add: extract_features_def)

lemma preprocess_and_extract_gallery:
  "preprocess_and_extract E (self\<lparr>known_faces_features := F, known_faces_labels := L\<rparr>) img w
     = preprocess_and_extract E self img w"
  unfolding preprocess_and_extract_def detect_faces_gallery align_face_gallery
    extract_features_gallery
  by (rule refl)

lemma load_file_step:
  "load_file E n (self\<lparr>known_faces_features := F, known_faces_labels := L\<rparr>, w) =
     (if has_image_suffix n then
        (case extract_file E self v n of
           Inl e \<Rightarrow> Inl e
         | Inr (Some feats, v1) \<Rightarrow>
             Inr (self\<lparr>known_faces_features := F @ [feats],
                       known_faces_labels := L @ [fst (splitext n)]\<rparr>,
                  w\<lparr>stdout := stdout w @ printed_since v v1\<rparr>)
         | Inr (None, v1) \<Rightarrow>
             Inr (self\<lparr>known_faces_features := F, known_faces_labels := L\<rparr>,
                  w\<lparr>stdout := stdout w @ printed_since v v1
                                 @ [ExtractionFailed (fst (splitext n))]\<rparr>))
      else Inr (self\<lparr>known_faces_features := F, known_faces_labels := L\<rparr>, w))"
proof (cases "has_image_suffix n")
  case False
  then show ?thesis by (simp add: load_file_def has_image_suffix_def)
next
  case True
  define img where "img = cv_imread E (path_join (KNOWN_FACES_DIR E) n)"
  from preprocess_and_extract_lines obtain r where
    r: "\<forall>u. preprocess_and_extract E self img u
             = (case r of Inl e \<Rightarrow> Inl e
                | Inr (x, ms) \<Rightarrow> Inr (x, u\<lparr>stdout := stdout u @ ms\<rparr>))"
    by blast
  have lf: "load_file E n (self\<lparr>known_faces_features := F, known_faces_labels := L\<rparr>, w)
        = (case preprocess_and_extract E self img w of
             Inl e \<Rightarrow> Inl e
           | Inr (Some face_features, w1) \<Rightarrow>
               Inr (self\<lparr>known_faces_features := F @ [face_features],
                         known_faces_labels := L @ [fst (splitext n)]\<rparr>, w1)
           | Inr (None, w1) \<Rightarrow>
               Inr (self\<lparr>known_faces_features := F, known_faces_labels := L\<rparr>,
                    print (ExtractionFailed (fst (splitext n))) w1))"
    using True
    by (simp add: load_file_def has_image_suffix_def Let_def img_def
          preprocess_and_extract_gallery
          split: sum.splits prod.splits option.splits)
  show ?thesis
  proof (cases r)
    case (Inl e)
    with r True show ?thesis
      by (simp add: lf extract_file_def img_def [symmetric])
  next
    case (Inr p)
    obtain x ms where p: "p = (x, ms)" by (cases p)
    show ?thesis
      using r True
      by (cases x)
        (simp_all add: lf extract_file_def img_def [symmetric] Inr p printed_since_def print_def)
  qed
qed


lemma load_loop_returns_iff:
  "(\<exists>sw'. load_loop E names (self\<lparr>known_faces_features := F, known_faces_labels := L\<rparr>, w)
             = Inr sw')
   \<longleftrightarrow> (\<forall>n \<in> set names. has_image_suffix n \<longrightarrow> (\<exists>r. extract_file E self v n = Inr r))"
proof (induction names arbitrary: F L w)
  case Nil
  show ?case by simp
next
  case (Cons n rest)
  show ?case
  proof (cases "has_image_suffix n")
    case False
    then have "load_file E n (self\<lparr>known_faces_features := F, known_faces_labels := L\<rparr>, w)
                 = Inr (self\<lparr>known_faces_features := F, known_faces_labels := L\<rparr>, w)"
      by (simp add: load_file_step [where v = v])
    then show ?thesis using False Cons.IH [where F = F and L = L and w = w] by simp
  next
    case True
    show ?thesis
    proof (cases "extract_file E self v n")
      case (Inl e)
      with True have "load_file E n (self\<lparr>known_faces_features := F, known_faces_labels := L\<rparr>, w)
                 = Inl e"
        by (simp add: load_file_step [where v = v])
      then show ?thesis using True Inl by simp
    next
      case (Inr p)
      obtain x v1 where p: "p = (x, v1)" by (cases p)
      show ?thesis
      proof (cases x)
        case None
        with True Inr p have "load_file E n
              (self\<lparr>known_faces_features := F, known_faces_labels := L\<rparr>, w)
            = Inr (self\<lparr>known_faces_features := F, known_faces_labels := L\<rparr>,
                   w\<lparr>stdout := stdout w @ printed_since v v1
                                  @ [ExtractionFailed (fst (splitext n))]\<rparr>)"
          by (simp add: load_file_step [where v = v])
        then show ?thesis
          using True Inr
            Cons.IH [where F = F and L = L
                and w = "w\<lparr>stdout := stdout w @ printed_since v v1
                                  @ [ExtractionFailed (fst (splitext n))]\<rparr>"]
          by simp
      next
        case (Some feats)
        with True Inr p have "load_file E n
              (self\<lparr>known_faces_features := F, known_faces_labels := L\<rparr>, w)
            = Inr (self\<lparr>known_faces_features := F @ [feats],
                         known_faces_labels := L @ [fst (splitext n)]\<rparr>,
                   w\<lparr>stdout := stdout w @ printed_since v v1\<rparr>)"
          by (simp add: load_file_step [where v = v])
        then show ?thesis
          using True Inr
            Cons.IH [where F = "F @ [feats]" and L = "L @ [fst (splitext n)]"
                and w = "w\<lparr>stdout := stdout w @ printed_since v v1\<rparr>"]
          by simp
      qed
    qed
  qed
qed













end
